theory Spec2Isabelle
  imports Complex_Main "HOL-Library.Word"
begin

section \<open>Signature masking: \<open>public/scripts/process_signatures.py\<close>\<close>

text \<open>
  The script has one function, \<open>process\<close>, which opens an image, derives an opacity
  mask from the brightest channel of every pixel, crops the mask to its content plus a
  margin, and saves a white image carrying that mask as its alpha channel.

  The image library (Pillow) is modelled as far as the script uses it: an image is its
  size and its pixels in row-major order, a channel is an 8-bit value, and the
  operations \<open>getbbox\<close>, \<open>crop\<close>, \<open>putalpha\<close>, \<open>open\<close> and \<open>save\<close> follow
  the library's documented behaviour. Python's integers are \<open>int\<close>.
\<close>

subsection \<open>Images\<close>

type_synonym byte = "8 word"

type_synonym rgb = "byte \<times> byte \<times> byte"

type_synonym rgba = "byte \<times> byte \<times> byte \<times> byte"

record 'a image =
  width :: nat
  height :: nat
  pixels :: "'a list"

text \<open>An image holds one pixel for every coordinate of its size.\<close>

definition wf_image :: "'a image \<Rightarrow> bool" where
  "wf_image im = (length (pixels im) = width im * height im)"

text \<open>The pixel access object of an image, \<open>px[x, y]\<close>, for \<open>x < width\<close> and \<open>y < height\<close>.\<close>

definition getpixel :: "'a image \<Rightarrow> nat \<Rightarrow> nat \<Rightarrow> 'a" where
  "getpixel im x y = pixels im ! (y * width im + x)"

definition putpixel :: "'a image \<Rightarrow> nat \<Rightarrow> nat \<Rightarrow> 'a \<Rightarrow> 'a image" where
  "putpixel im x y v = im\<lparr>pixels := (pixels im)[y * width im + x := v]\<rparr>"

text \<open>\<open>Image.new(mode, (w, h), colour)\<close>.\<close>

definition Image_new :: "nat \<Rightarrow> nat \<Rightarrow> 'a \<Rightarrow> 'a image" where
  "Image_new w h c = \<lparr>width = w, height = h, pixels = replicate (w * h) c\<rparr>"

text \<open>
  Lines 6 and 9: \<open>r, g, b, a = im.split()\<close> followed by
  \<open>Image.merge('RGB', (r, g, b))\<close>. The alpha band is split off and never used again.
\<close>

definition drop_alpha :: "rgba \<Rightarrow> rgb" where
  "drop_alpha p = (case p of (r, g, b, a) \<Rightarrow> (r, g, b))"

definition merge_rgb :: "rgba image \<Rightarrow> rgb image" where
  "merge_rgb im = \<lparr>width = width im, height = height im, pixels = map drop_alpha (pixels im)\<rparr>"

subsection \<open>The mask: lines 16 to 30\<close>

text \<open>The brightest channel of a pixel, as the two comparisons of lines 19 to 23 find it.\<close>

definition max_channel :: "rgb \<Rightarrow> int" where
  "max_channel p =
     (case p of (pr, pg, pb) \<Rightarrow>
        let m = uint pr;
            m = (if uint pg > m then uint pg else m);
            m = (if uint pb > m then uint pb else m)
        in m)"

text \<open>Lines 24 to 30: the value stored in the mask for one pixel.\<close>

definition pixel_alpha :: "int \<Rightarrow> int \<Rightarrow> rgb \<Rightarrow> byte" where
  "pixel_alpha threshold gain p =
     (let m = max_channel p;
          v = (m - threshold) * gain
      in if v \<le> 0 then 0
         else if v \<ge> 255 then 255
         else word_of_int v)"

text \<open>The inner loop over \<open>x\<close> and the outer loop over \<open>y\<close>, writing into \<open>apx\<close>.\<close>

definition mask_row :: "int \<Rightarrow> int \<Rightarrow> rgb image \<Rightarrow> nat \<Rightarrow> byte image \<Rightarrow> byte image" where
  "mask_row threshold gain rgb y alpha =
     fold (\<lambda>x apx. putpixel apx x y (pixel_alpha threshold gain (getpixel rgb x y)))
       [0..<width rgb] alpha"

definition mask_loop :: "int \<Rightarrow> int \<Rightarrow> rgb image \<Rightarrow> byte image \<Rightarrow> byte image" where
  "mask_loop threshold gain rgb alpha =
     fold (\<lambda>y apx. mask_row threshold gain rgb y apx) [0..<height rgb] alpha"

text \<open>Lines 10 to 30 together: the full-size mask of an image.\<close>

definition compute_mask :: "int \<Rightarrow> int \<Rightarrow> rgb image \<Rightarrow> byte image" where
  "compute_mask threshold gain rgb =
     mask_loop threshold gain rgb (Image_new (width rgb) (height rgb) 0)"

subsection \<open>The library operations used after the mask\<close>

datatype error = FileNotFoundError | UnidentifiedImageError | ValueError | OSError

type_synonym box = "int \<times> int \<times> int \<times> int"

text \<open>
  \<open>Image.getbbox()\<close> on a single-band image: the smallest box
  \<open>(left, upper, right, lower)\<close> holding every non-zero pixel, the right and lower
  edges just outside it, and \<open>None\<close> for an image with no non-zero pixel.
\<close>

definition column_marked :: "byte image \<Rightarrow> nat \<Rightarrow> bool" where
  "column_marked im x = list_ex (\<lambda>y. getpixel im x y \<noteq> 0) [0..<height im]"

definition row_marked :: "byte image \<Rightarrow> nat \<Rightarrow> bool" where
  "row_marked im y = list_ex (\<lambda>x. getpixel im x y \<noteq> 0) [0..<width im]"

definition getbbox :: "byte image \<Rightarrow> box option" where
  "getbbox im =
     (let xs = filter (column_marked im) [0..<width im];
          ys = filter (row_marked im) [0..<height im]
      in if xs = [] \<or> ys = [] then None
         else Some (int (hd xs), int (hd ys), int (last xs) + 1, int (last ys) + 1))"

text \<open>
  \<open>Image.crop(box)\<close>: a box whose right edge is left of its left edge, or whose lower
  edge is above its upper edge, raises \<open>ValueError\<close>; otherwise the result has the
  box's size, and a coordinate of the box outside the image reads as 0.
\<close>

definition crop_pixel :: "byte image \<Rightarrow> int \<Rightarrow> int \<Rightarrow> byte" where
  "crop_pixel im x y =
     (if 0 \<le> x \<and> x < int (width im) \<and> 0 \<le> y \<and> y < int (height im)
      then getpixel im (nat x) (nat y) else 0)"

definition crop :: "byte image \<Rightarrow> box \<Rightarrow> error + byte image" where
  "crop im bx =
     (case bx of (x0, y0, x1, y1) \<Rightarrow>
        if x1 < x0 then Inl ValueError
        else if y1 < y0 then Inl ValueError
        else
          let w = nat (x1 - x0); h = nat (y1 - y0)
          in Inr \<lparr>width = w, height = h,
                  pixels = concat (map (\<lambda>j. map (\<lambda>i. crop_pixel im (x0 + int i) (y0 + int j))
                                             [0..<w]) [0..<h])\<rparr>)"

text \<open>\<open>Image.putalpha(alpha)\<close> with a band image: the sizes have to match.\<close>

definition set_alpha :: "rgba \<Rightarrow> byte \<Rightarrow> rgba" where
  "set_alpha p a = (case p of (r, g, b, _) \<Rightarrow> (r, g, b, a))"

definition putalpha :: "rgba image \<Rightarrow> byte image \<Rightarrow> error + rgba image" where
  "putalpha im alpha =
     (if width alpha = width im \<and> height alpha = height im
      then Inr (im\<lparr>pixels := map2 set_alpha (pixels im) (pixels alpha)\<rparr>)
      else Inl ValueError)"

subsection \<open>From the decoded image to the image that is saved: lines 6 to 42\<close>

text \<open>Lines 34 to 38: the bounding box grown by \<open>pad\<close> and cut at the image's edges.\<close>

definition pad_box :: "nat \<Rightarrow> nat \<Rightarrow> int \<Rightarrow> box \<Rightarrow> box" where
  "pad_box w h pad bbox =
     (case bbox of (x0, y0, x1, y1) \<Rightarrow>
        let x0 = max 0 (x0 - pad);
            y0 = max 0 (y0 - pad);
            x1 = min (int w) (x1 + pad);
            y1 = min (int h) (y1 + pad)
        in (x0, y0, x1, y1))"

text \<open>Lines 32 to 39: the mask, cropped when it has a bounding box.\<close>

definition crop_to_content :: "nat \<Rightarrow> nat \<Rightarrow> int \<Rightarrow> byte image \<Rightarrow> error + byte image" where
  "crop_to_content w h pad alpha =
     (case getbbox alpha of
        None \<Rightarrow> Inr alpha
      | Some bbox \<Rightarrow> crop alpha (pad_box w h pad bbox))"

definition process_image :: "rgba image \<Rightarrow> int \<Rightarrow> int \<Rightarrow> int \<Rightarrow> error + rgba image" where
  "process_image im threshold gain pad =
     (let rgb = merge_rgb im;
          w = width rgb;
          h = height rgb;
          alpha = compute_mask threshold gain rgb
      in case crop_to_content w h pad alpha of
           Inl e \<Rightarrow> Inl e
         | Inr alpha \<Rightarrow>
             putalpha (Image_new (width alpha) (height alpha) (255, 255, 255, 0)) alpha)"

subsection \<open>Files and the whole of \<open>process\<close>\<close>

text \<open>
  A file either decodes to an image (held here as its conversion to RGBA) or is not an
  image. A path is writable when its directory can be written and its extension names
  a format the library can encode. A save that fails is taken to leave the files as they
  were: what a failing encoder leaves behind is not part of this model.
\<close>

datatype file_content = Encoded "rgba image" | Not_an_image

record world =
  files :: "string \<Rightarrow> file_content option"
  writable :: "string \<Rightarrow> bool"
  stdout :: "string list"

definition Image_open :: "string \<Rightarrow> world \<Rightarrow> error + rgba image" where
  "Image_open path w =
     (case files w path of
        None \<Rightarrow> Inl FileNotFoundError
      | Some Not_an_image \<Rightarrow> Inl UnidentifiedImageError
      | Some (Encoded im) \<Rightarrow> Inr im)"

definition Image_save :: "rgba image \<Rightarrow> string \<Rightarrow> world \<Rightarrow> (error + unit) \<times> world" where
  "Image_save im path w =
     (if writable w path
      then (Inr (), w\<lparr>files := (files w)(path \<mapsto> Encoded im)\<rparr>)
      else (Inl OSError, w))"

definition digit :: "nat \<Rightarrow> char" where
  "digit n = ''0123456789'' ! n"

fun decimal :: "nat \<Rightarrow> string" where
  "decimal n = (if n < 10 then [digit n] else decimal (n div 10) @ [digit (n mod 10)])"

declare decimal.simps [simp del]

definition print :: "string \<Rightarrow> world \<Rightarrow> world" where
  "print line w = w\<lparr>stdout := stdout w @ [line]\<rparr>"

definition process ::
  "string \<Rightarrow> string \<Rightarrow> int \<Rightarrow> int \<Rightarrow> int \<Rightarrow> world \<Rightarrow> (error + unit) \<times> world" where
  "process src_path dst_path threshold gain pad w =
     (case Image_open src_path w of
        Inl e \<Rightarrow> (Inl e, w)
      | Inr im \<Rightarrow>
          (case process_image im threshold gain pad of
             Inl e \<Rightarrow> (Inl e, w)
           | Inr out \<Rightarrow>
               (case Image_save out dst_path w of
                  (Inl e, w') \<Rightarrow> (Inl e, w')
                | (Inr u, w') \<Rightarrow>
                    (Inr (),
                     print (''Wrote '' @ dst_path @ '' ('' @ decimal (width out) @ ''x''
                              @ decimal (height out) @ '')'') w'))))"

text \<open>Lines 46 to 48: the two calls of the script, the second only after the first returned.\<close>

definition script :: "world \<Rightarrow> (error + unit) \<times> world" where
  "script w =
     (case process ''assets/signature-david.png'' ''assets/signature-david-white.png'' 6 18 24 w of
        (Inl e, w') \<Rightarrow> (Inl e, w')
      | (Inr u, w') \<Rightarrow>
          process ''assets/signature-farax.png'' ''assets/signature-farax-white.png'' 6 18 24 w')"

section \<open>Properties\<close>

subsection \<open>The two loops fill the mask pixel by pixel\<close>

lemma putpixel_fold:
  "fold (\<lambda>x apx. putpixel apx x y (F x)) xs alpha =
     alpha\<lparr>pixels := fold (\<lambda>x ps. ps[y * width alpha + x := F x]) xs (pixels alpha)\<rparr>"
  by (induction xs arbitrary: alpha) (simp_all add: putpixel_def)

lemma length_fold_update:
  "length (fold (\<lambda>i ps. ps[g i := F i]) is ps) = length ps"
  by (induction "is" arbitrary: ps) simp_all

lemma nth_fold_update:
  "j < length ps \<Longrightarrow>
   fold (\<lambda>i ps. ps[k + i := F (k + i)]) [0..<n] ps ! j =
     (if k \<le> j \<and> j < k + n then F j else ps ! j)"
proof (induction n)
  case 0
  then show ?case by auto
next
  case (Suc n)
  have len: "length (fold (\<lambda>i ps. ps[k + i := F (k + i)]) [0..<n] ps) = length ps"
    by (rule length_fold_update)
  show ?case
  proof (cases "j = k + n")
    case True
    with Suc.prems len show ?thesis by simp
  next
    case False
    with Suc len show ?thesis by (auto simp: nth_list_update)
  qed
qed

lemma length_fold_rows:
  "length (fold (\<lambda>y ps. fold (\<lambda>x ps. ps[g y x := F y x]) [0..<w] ps) ys ps) = length ps"
  by (induction ys arbitrary: ps) (simp_all add: length_fold_update)

lemma nth_fold_rows:
  "j < length ps \<Longrightarrow>
   fold (\<lambda>y ps. fold (\<lambda>x ps. ps[y * w + x := F (y * w + x)]) [0..<w] ps) [0..<h] ps ! j =
     (if j < h * w then F j else ps ! j)"
proof (induction h)
  case 0
  then show ?case by simp
next
  case (Suc h)
  let ?rows = "fold (\<lambda>y ps. fold (\<lambda>x ps. ps[y * w + x := F (y * w + x)]) [0..<w] ps) [0..<h] ps"
  have len: "length ?rows = length ps"
    by (rule length_fold_rows)
  have "fold (\<lambda>x ps. ps[h * w + x := F (h * w + x)]) [0..<w] ?rows ! j =
          (if h * w \<le> j \<and> j < h * w + w then F j else ?rows ! j)"
    using Suc.prems len by (simp add: nth_fold_update)
  with Suc show ?case by (auto simp: add.commute)
qed

lemma compute_mask_eq:
  assumes "wf_image rgb"
  shows "compute_mask threshold gain rgb =
           \<lparr>width = width rgb, height = height rgb,
            pixels = map (pixel_alpha threshold gain) (pixels rgb)\<rparr>"
proof -
  let ?w = "width rgb" and ?h = "height rgb"
  let ?F = "\<lambda>i. pixel_alpha threshold gain (pixels rgb ! i)"
  let ?ps = "fold (\<lambda>y ps. fold (\<lambda>x ps. ps[y * ?w + x := ?F (y * ?w + x)]) [0..<?w] ps)
               [0..<?h] (replicate (?w * ?h) 0)"
  have rows: "fold (\<lambda>y apx. mask_row threshold gain rgb y apx) ys alpha =
          alpha\<lparr>pixels := fold (\<lambda>y ps. fold (\<lambda>x ps. ps[y * ?w + x := ?F (y * ?w + x)]) [0..<?w] ps)
               ys (pixels alpha)\<rparr>" if "width alpha = ?w" for ys and alpha :: "byte image"
    using that by (induction ys arbitrary: alpha) (simp_all add: mask_row_def putpixel_fold getpixel_def)
  have "compute_mask threshold gain rgb = \<lparr>width = ?w, height = ?h, pixels = ?ps\<rparr>"
    by (simp add: compute_mask_def mask_loop_def Image_new_def rows)
  moreover have "?ps = map (pixel_alpha threshold gain) (pixels rgb)"
  proof (rule nth_equalityI)
    show "length ?ps = length (map (pixel_alpha threshold gain) (pixels rgb))"
      using assms by (simp add: length_fold_rows wf_image_def)
  next
    fix i assume "i < length ?ps"
    then have i: "i < ?w * ?h" by (simp add: length_fold_rows)
    then have "?ps ! i = ?F i"
      using nth_fold_rows [of i "replicate (?w * ?h) 0" ?w ?F ?h]
      by (simp add: mult.commute)
    with i assms show "?ps ! i = map (pixel_alpha threshold gain) (pixels rgb) ! i"
      by (simp add: wf_image_def)
  qed
  ultimately show ?thesis by simp
qed

subsection \<open>Single pixels\<close>

lemma index_in_range:
  fixes x y w h :: nat
  assumes "x < w" "y < h"
  shows "y * w + x < w * h"
proof -
  have "y * w + x < Suc y * w" using assms by simp
  also have "\<dots> \<le> h * w" using assms by (intro mult_le_mono1) simp
  finally show ?thesis by (simp add: mult.commute)
qed

lemma max_channel_eq: "max_channel (r, g, b) = max (uint r) (max (uint g) (uint b))"
  by (simp add: max_channel_def Let_def max_def)

lemma uint_byte_of_int:
  assumes "0 \<le> v" "v < 256"
  shows "uint (word_of_int v :: byte) = v"
  using assms by (simp add: uint_word_of_int_eq take_bit_int_eq_self)

lemma uint_pixel_alpha:
  "uint (pixel_alpha threshold gain p) =
     (if (max_channel p - threshold) * gain \<le> 0 then 0
      else if (max_channel p - threshold) * gain \<ge> 255 then 255
      else (max_channel p - threshold) * gain)"
proof -
  define v where "v = (max_channel p - threshold) * gain"
  have "uint (if v \<le> 0 then 0 else if v \<ge> 255 then 255 else word_of_int v :: byte) =
          (if v \<le> 0 then 0 else if v \<ge> 255 then 255 else v)"
    using uint_byte_of_int [of v] by simp
  then show ?thesis
    unfolding pixel_alpha_def Let_def v_def .
qed

lemma getpixel_compute_mask:
  assumes "wf_image im" "x < width im" "y < height im"
  shows "getpixel (compute_mask threshold gain (merge_rgb im)) x y =
           pixel_alpha threshold gain (drop_alpha (getpixel im x y))"
proof -
  have "wf_image (merge_rgb im)"
    using assms(1) by (simp add: wf_image_def merge_rgb_def)
  moreover have "y * width im + x < length (pixels im)"
    using assms by (simp add: wf_image_def index_in_range)
  ultimately show ?thesis
    by (simp add: compute_mask_eq getpixel_def merge_rgb_def)
qed

subsection \<open>The bounding box\<close>

lemma filter_upt_bounds:
  assumes "x < n" "P x"
  shows "filter P [0..<n] \<noteq> []"
    and "hd (filter P [0..<n]) \<le> x"
    and "x \<le> last (filter P [0..<n])"
    and "last (filter P [0..<n]) < n"
    and "hd (filter P [0..<n]) \<le> last (filter P [0..<n])"
proof -
  let ?xs = "filter P [0..<n]"
  have mem: "x \<in> set ?xs" using assms by simp
  then show ne: "?xs \<noteq> []" by (cases ?xs) simp_all
  have srt: "sorted ?xs" by (simp add: sorted_filter [where f = "\<lambda>x. x", simplified])
  from mem obtain i where i: "i < length ?xs" "?xs ! i = x"
    unfolding in_set_conv_nth by blast
  have "?xs ! 0 \<le> ?xs ! i" using srt i(1) by (intro sorted_nth_mono) simp_all
  with ne i show "hd ?xs \<le> x" by (simp add: hd_conv_nth)
  have "?xs ! i \<le> ?xs ! (length ?xs - 1)" using srt i(1) by (intro sorted_nth_mono) simp_all
  with ne i show "x \<le> last ?xs" by (simp add: last_conv_nth)
  have "last ?xs \<in> set ?xs" using ne by (rule last_in_set)
  then show "last ?xs < n" by simp
  from \<open>hd ?xs \<le> x\<close> \<open>x \<le> last ?xs\<close> show "hd ?xs \<le> last ?xs" by simp
qed

lemma marked:
  assumes "x < width im" "y < height im" "getpixel im x y \<noteq> 0"
  shows "column_marked im x" and "row_marked im y"
  using assms by (auto simp: column_marked_def row_marked_def list_ex_iff)

lemma getbbox_None_iff:
  "getbbox im = None \<longleftrightarrow> (\<forall>x < width im. \<forall>y < height im. getpixel im x y = 0)"
proof
  assume none: "getbbox im = None"
  show "\<forall>x < width im. \<forall>y < height im. getpixel im x y = 0"
  proof (intro allI impI, rule ccontr)
    fix x y assume xy: "x < width im" "y < height im" and "getpixel im x y \<noteq> 0"
    then have "filter (column_marked im) [0..<width im] \<noteq> []"
      and "filter (row_marked im) [0..<height im] \<noteq> []"
      by (simp_all add: filter_upt_bounds(1) marked)
    with none show False by (simp add: getbbox_def Let_def)
  qed
next
  assume zero: "\<forall>x < width im. \<forall>y < height im. getpixel im x y = 0"
  then have "filter (column_marked im) [0..<width im] = []"
    by (auto simp: column_marked_def list_ex_iff filter_empty_conv)
  then show "getbbox im = None" by (simp add: getbbox_def)
qed

lemma getbbox_Some:
  assumes "getbbox im = Some (x0, y0, x1, y1)"
  shows "0 \<le> x0" "x0 < x1" "x1 \<le> int (width im)" "0 \<le> y0" "y0 < y1" "y1 \<le> int (height im)"
proof -
  let ?xs = "filter (column_marked im) [0..<width im]"
  let ?ys = "filter (row_marked im) [0..<height im]"
  from assms have ne: "?xs \<noteq> []" "?ys \<noteq> []"
    and eq: "x0 = int (hd ?xs)" "y0 = int (hd ?ys)" "x1 = int (last ?xs) + 1" "y1 = int (last ?ys) + 1"
    by (auto simp: getbbox_def Let_def split: if_splits)
  from ne(1) have "hd ?xs \<in> set ?xs" by (rule hd_in_set)
  then have hx: "hd ?xs < width im" "column_marked im (hd ?xs)" by simp_all
  from ne(2) have "hd ?ys \<in> set ?ys" by (rule hd_in_set)
  then have hy: "hd ?ys < height im" "row_marked im (hd ?ys)" by simp_all
  show "0 \<le> x0" "0 \<le> y0" using eq by simp_all
  note bxs = filter_upt_bounds [of "hd ?xs" "width im" "column_marked im", OF hx]
  note bys = filter_upt_bounds [of "hd ?ys" "height im" "row_marked im", OF hy]
  show "x0 < x1" using bxs(5) eq by simp
  show "y0 < y1" using bys(5) eq by simp
  show "x1 \<le> int (width im)" using bxs(4) eq by simp
  show "y1 \<le> int (height im)" using bys(4) eq by simp
qed

lemma getbbox_contains:
  assumes "getbbox im = Some (x0, y0, x1, y1)"
    and "x < width im" "y < height im" "getpixel im x y \<noteq> 0"
  shows "x0 \<le> int x" "int x < x1" "y0 \<le> int y" "int y < y1"
proof -
  let ?xs = "filter (column_marked im) [0..<width im]"
  let ?ys = "filter (row_marked im) [0..<height im]"
  from assms(1) have eq: "x0 = int (hd ?xs)" "y0 = int (hd ?ys)"
      "x1 = int (last ?xs) + 1" "y1 = int (last ?ys) + 1"
    by (auto simp: getbbox_def Let_def split: if_splits)
  have cx: "column_marked im x" and ry: "row_marked im y"
    using assms(2-4) by (simp_all add: marked)
  note bxs = filter_upt_bounds [of x "width im" "column_marked im", OF assms(2) cx]
  note bys = filter_upt_bounds [of y "height im" "row_marked im", OF assms(3) ry]
  show "x0 \<le> int x" using bxs(2) eq by simp
  show "int x < x1" using bxs(3) eq by simp
  show "y0 \<le> int y" using bys(2) eq by simp
  show "int y < y1" using bys(3) eq by simp
qed

subsection \<open>Cropping inside the image\<close>

lemma length_concat_rows:
  "length (concat (map (\<lambda>j. map (F j) [0..<w]) [0..<h])) = h * w"
  by (induction h) simp_all

lemma nth_concat_rows:
  "i < w \<Longrightarrow> j < h \<Longrightarrow> concat (map (\<lambda>j. map (F j) [0..<w]) [0..<h]) ! (j * w + i) = F j i"
proof (induction h)
  case 0
  then show ?case by simp
next
  case (Suc h)
  show ?case
  proof (cases "j < h")
    case True
    then have "j * w + i < h * w"
      using Suc.prems(1) index_in_range [of i w j h] by (simp add: mult.commute)
    with True Suc show ?thesis
      by (simp add: nth_append length_concat_rows)
  next
    case False
    with Suc.prems have "j = h" by simp
    with Suc.prems(1) show ?thesis
      by (simp add: nth_append length_concat_rows)
  qed
qed

lemma crop_inside:
  assumes "0 \<le> x0" "x0 \<le> x1" "x1 \<le> int (width im)"
    and "0 \<le> y0" "y0 \<le> y1" "y1 \<le> int (height im)"
  obtains c where "crop im (x0, y0, x1, y1) = Inr c"
    and "width c = nat (x1 - x0)" and "height c = nat (y1 - y0)"
    and "wf_image c"
    and "\<And>i j. i < width c \<Longrightarrow> j < height c \<Longrightarrow>
           getpixel c i j = getpixel im (nat x0 + i) (nat y0 + j)"
proof -
  let ?w = "nat (x1 - x0)" and ?h = "nat (y1 - y0)"
  let ?F = "\<lambda>j i. crop_pixel im (x0 + int i) (y0 + int j)"
  let ?c = "\<lparr>width = ?w, height = ?h, pixels = concat (map (\<lambda>j. map (?F j) [0..<?w]) [0..<?h])\<rparr>"
  have 1: "crop im (x0, y0, x1, y1) = Inr ?c"
    using assms by (simp add: crop_def Let_def)
  have 2: "wf_image ?c"
    by (simp add: wf_image_def length_concat_rows mult.commute)
  have 3: "getpixel ?c i j = getpixel im (nat x0 + i) (nat y0 + j)"
    if "i < width ?c" "j < height ?c" for i j
  proof -
    from that have ij: "i < ?w" "j < ?h" by simp_all
    then have "getpixel ?c i j = ?F j i"
      by (simp add: getpixel_def nth_concat_rows)
    also have "\<dots> = getpixel im (nat x0 + i) (nat y0 + j)"
    proof -
      have "x0 + int i < int (width im)" "y0 + int j < int (height im)"
        using ij assms by linarith+
      then show ?thesis
        using assms by (simp add: crop_pixel_def nat_add_distrib)
    qed
    finally show ?thesis .
  qed
  from 1 2 3 show thesis by (intro that [of ?c]) simp_all
qed

subsection \<open>The image that is saved\<close>

lemma map2_replicate:
  "length xs = n \<Longrightarrow> map2 f (replicate n c) xs = map (f c) xs"
  by (induction xs arbitrary: n) auto

lemma putalpha_new:
  assumes "wf_image alpha"
  shows "putalpha (Image_new (width alpha) (height alpha) c) alpha =
           Inr \<lparr>width = width alpha, height = height alpha,
                pixels = map (set_alpha c) (pixels alpha)\<rparr>"
  using assms by (simp add: putalpha_def Image_new_def wf_image_def map2_replicate)

lemma width_compute_mask:
  assumes "wf_image im"
  shows "width (compute_mask threshold gain (merge_rgb im)) = width im"
    and "height (compute_mask threshold gain (merge_rgb im)) = height im"
    and "wf_image (compute_mask threshold gain (merge_rgb im))"
proof -
  have "wf_image (merge_rgb im)"
    using assms by (simp add: wf_image_def merge_rgb_def)
  then have eq: "compute_mask threshold gain (merge_rgb im) =
      \<lparr>width = width im, height = height im,
       pixels = map (pixel_alpha threshold gain) (map drop_alpha (pixels im))\<rparr>"
    by (simp add: compute_mask_eq merge_rgb_def)
  show "width (compute_mask threshold gain (merge_rgb im)) = width im"
    and "height (compute_mask threshold gain (merge_rgb im)) = height im"
    and "wf_image (compute_mask threshold gain (merge_rgb im))"
    using assms unfolding eq by (simp_all add: wf_image_def)
qed

lemma pad_box_bounds:
  assumes "pad_box w h pad (x0, y0, x1, y1) = (cx0, cy0, cx1, cy1)"
  shows "0 \<le> cx0" "0 \<le> cy0" "cx1 \<le> int w" "cy1 \<le> int h"
  using assms by (auto simp: pad_box_def Let_def)

lemma pad_box_grows:
  assumes "pad_box w h pad (x0, y0, x1, y1) = (cx0, cy0, cx1, cy1)"
    and "0 \<le> pad" and "0 \<le> x0" "x1 \<le> int w" "0 \<le> y0" "y1 \<le> int h"
  shows "cx0 \<le> x0" "x1 \<le> cx1" "cy0 \<le> y0" "y1 \<le> cy1"
  using assms by (auto simp: pad_box_def Let_def)

lemma process_image_cropped:
  assumes wf: "wf_image im" and pad: "0 \<le> pad"
    and bbox: "getbbox (compute_mask threshold gain (merge_rgb im)) = Some (x0, y0, x1, y1)"
    and padded: "pad_box (width im) (height im) pad (x0, y0, x1, y1) = (cx0, cy0, cx1, cy1)"
  obtains out where "process_image im threshold gain pad = Inr out"
    and "width out = nat (cx1 - cx0)" and "height out = nat (cy1 - cy0)"
    and "\<And>i j. i < width out \<Longrightarrow> j < height out \<Longrightarrow>
           getpixel out i j =
             (255, 255, 255,
              getpixel (compute_mask threshold gain (merge_rgb im)) (nat cx0 + i) (nat cy0 + j))"
proof -
  let ?mask = "compute_mask threshold gain (merge_rgb im)"
  note m = width_compute_mask [OF wf, of threshold gain]
  note b = getbbox_Some [OF bbox, unfolded m]
  note g = pad_box_grows [OF padded pad b(1,3,4,6)]
  note p = pad_box_bounds [OF padded]
  have "0 \<le> cx0" "cx0 \<le> cx1" "cx1 \<le> int (width ?mask)"
    and "0 \<le> cy0" "cy0 \<le> cy1" "cy1 \<le> int (height ?mask)"
    using g p b by (simp_all add: m)
  then obtain c where c: "crop ?mask (cx0, cy0, cx1, cy1) = Inr c"
    "width c = nat (cx1 - cx0)" "height c = nat (cy1 - cy0)" "wf_image c"
    "\<And>i j. i < width c \<Longrightarrow> j < height c \<Longrightarrow>
       getpixel c i j = getpixel ?mask (nat cx0 + i) (nat cy0 + j)"
    by (rule crop_inside) blast
  let ?out = "\<lparr>width = width c, height = height c,
               pixels = map (set_alpha (255, 255, 255, 0)) (pixels c)\<rparr>"
  have "crop_to_content (width im) (height im) pad ?mask = Inr c"
    by (simp add: crop_to_content_def bbox padded c(1))
  then have 1: "process_image im threshold gain pad = Inr ?out"
    by (simp add: process_image_def Let_def merge_rgb_def [of im, THEN arg_cong [of _ _ width]]
          merge_rgb_def [of im, THEN arg_cong [of _ _ height]] putalpha_new [OF c(4)])
  have 2: "getpixel ?out i j = (255, 255, 255, getpixel ?mask (nat cx0 + i) (nat cy0 + j))"
    if "i < width ?out" "j < height ?out" for i j
  proof -
    from that have ij: "i < width c" "j < height c" by simp_all
    then have "j * width c + i < length (pixels c)"
      using c(4) by (simp add: wf_image_def index_in_range)
    then have "getpixel ?out i j = set_alpha (255, 255, 255, 0) (getpixel c i j)"
      by (simp add: getpixel_def)
    with c(5) [OF ij] show ?thesis by (simp add: set_alpha_def)
  qed
  from 1 2 c(2,3) show thesis by (intro that [of ?out]) simp_all
qed

subsection \<open>The mask as a function of the brightest channel\<close>

text \<open>
  Claim C1. For a pixel \<open>(r, g, b, a)\<close> of the source image and non-negative \<open>threshold\<close>
  and \<open>gain\<close>, the mask built by the two loops holds at that pixel the clamped linear
  ramp on \<open>m = max r g b\<close>: 0 when \<open>(m - threshold) * gain \<le> 0\<close>, 255 when it is at
  least 255, and \<open>(m - threshold) * gain\<close> itself in between. In particular the mask is 0
  wherever \<open>m \<le> threshold\<close>.
\<close>

theorem mask_alpha_is_clamped_ramp:
  assumes "wf_image im" and "x < width im" and "y < height im"
    and "getpixel im x y = (r, g, b, a)"
    and "0 \<le> threshold" and "0 \<le> gain"
  defines "m \<equiv> max (uint r) (max (uint g) (uint b))"
  shows "uint (getpixel (compute_mask threshold gain (merge_rgb im)) x y) =
           (if (m - threshold) * gain \<le> 0 then 0
            else if (m - threshold) * gain \<ge> 255 then 255
            else (m - threshold) * gain)
         \<and> (m \<le> threshold \<longrightarrow> getpixel (compute_mask threshold gain (merge_rgb im)) x y = 0)"
proof -
  let ?alpha = "getpixel (compute_mask threshold gain (merge_rgb im)) x y"
  have px: "?alpha = pixel_alpha threshold gain (r, g, b)"
    using assms(1-4) by (simp add: getpixel_compute_mask drop_alpha_def)
  have m: "max_channel (r, g, b) = m"
    by (simp add: max_channel_eq m_def)
  have ramp: "uint ?alpha =
      (if (m - threshold) * gain \<le> 0 then 0
       else if (m - threshold) * gain \<ge> 255 then 255
       else (m - threshold) * gain)"
    unfolding px uint_pixel_alpha m ..
  have "?alpha = 0" if "m \<le> threshold"
  proof -
    from that \<open>0 \<le> gain\<close> have "(m - threshold) * gain \<le> 0"
      by (simp add: mult_le_0_iff)
    with ramp have "uint ?alpha = 0" by simp
    then show ?thesis by (simp add: uint_0_iff)
  qed
  with ramp show ?thesis by blast
qed

theorem mask_alpha_is_clamped_ramp_witness:
  "uint (getpixel (compute_mask 6 18
      (merge_rgb \<lparr>width = 2, height = 1, pixels = [(10, 20, 5, 255), (3, 6, 1, 0)]\<rparr>)) 0 0) = 252
   \<and> getpixel (compute_mask 6 18
      (merge_rgb \<lparr>width = 2, height = 1, pixels = [(10, 20, 5, 255), (3, 6, 1, 0)]\<rparr>)) 1 0 = 0"
proof -
  let ?im = "\<lparr>width = 2, height = 1, pixels = [(10, 20, 5, 255), (3, 6, 1, 0) :: rgba]\<rparr>"
  have wf: "wf_image ?im" by (simp add: wf_image_def)
  have p0: "getpixel ?im 0 0 = (10, 20, 5, 255)" and p1: "getpixel ?im 1 0 = (3, 6, 1, 0)"
    by (simp_all add: getpixel_def)
  from mask_alpha_is_clamped_ramp [OF wf _ _ p0, of 6 18]
    mask_alpha_is_clamped_ramp [OF wf _ _ p1, of 6 18]
  show ?thesis by simp
qed

text \<open>
  Claim C5. For \<open>threshold \<ge> 0\<close> and \<open>gain \<ge> 1\<close>, a pixel whose brightest channel is at
  least \<open>threshold + \<lceil>255 / gain\<rceil>\<close> gets the mask value 255.
\<close>

theorem bright_pixel_is_opaque:
  assumes "wf_image im" and "x < width im" and "y < height im"
    and "getpixel im x y = (r, g, b, a)"
    and "0 \<le> threshold" and "1 \<le> gain"
    and "max (uint r) (max (uint g) (uint b)) \<ge> threshold + \<lceil>255 / real_of_int gain\<rceil>"
  shows "getpixel (compute_mask threshold gain (merge_rgb im)) x y = 255"
proof -
  define m where "m = max (uint r) (max (uint g) (uint b))"
  let ?alpha = "getpixel (compute_mask threshold gain (merge_rgb im)) x y"
  have px: "?alpha = pixel_alpha threshold gain (r, g, b)"
    using assms(1-4) by (simp add: getpixel_compute_mask drop_alpha_def)
  have m: "max_channel (r, g, b) = m"
    by (simp add: max_channel_eq m_def)
  have pos: "0 < real_of_int gain" using \<open>1 \<le> gain\<close> by simp
  have "255 / real_of_int gain \<le> real_of_int \<lceil>255 / real_of_int gain\<rceil>"
    by (rule le_of_int_ceiling)
  also have "\<dots> \<le> real_of_int (m - threshold)"
    using assms(7) unfolding m_def [symmetric] by linarith
  finally have "255 \<le> real_of_int (m - threshold) * real_of_int gain"
    using pos by (simp add: pos_divide_le_eq)
  then have "255 \<le> real_of_int ((m - threshold) * gain)" by simp
  then have v: "255 \<le> (m - threshold) * gain" by linarith
  then have "uint ?alpha = 255"
    unfolding px uint_pixel_alpha m by simp
  then have "uint ?alpha = uint (255 :: byte)" by simp
  then show ?thesis by (simp only: word_uint_eq_iff)
qed

theorem bright_pixel_is_opaque_witness:
  "(21::int) \<ge> 6 + \<lceil>255 / real_of_int 18\<rceil>
   \<and> getpixel (compute_mask 6 18
      (merge_rgb \<lparr>width = 2, height = 1, pixels = [(10, 21, 5, 255), (3, 6, 1, 0)]\<rparr>)) 0 0 = 255"
proof -
  let ?im = "\<lparr>width = 2, height = 1, pixels = [(10, 21, 5, 255), (3, 6, 1, 0) :: rgba]\<rparr>"
  have wf: "wf_image ?im" by (simp add: wf_image_def)
  have p0: "getpixel ?im 0 0 = (10, 21, 5, 255)"
    by (simp add: getpixel_def)
  have c: "\<lceil>255 / real_of_int 18\<rceil> = 15" by (simp add: ceiling_eq_iff)
  from bright_pixel_is_opaque [OF wf _ _ p0, of 6 18] c
  show ?thesis by simp
qed

text \<open>
  Claim C6. For fixed non-negative \<open>threshold\<close> and \<open>gain\<close> the mask value does not
  decrease with the brightest channel: of two pixels, the one with the smaller
  \<open>max r g b\<close> never gets the larger mask value.
\<close>

theorem alpha_monotone_in_max_channel:
  assumes "wf_image im1" and "x1 < width im1" and "y1 < height im1"
    and "getpixel im1 x1 y1 = (r1, g1, b1, a1)"
    and "wf_image im2" and "x2 < width im2" and "y2 < height im2"
    and "getpixel im2 x2 y2 = (r2, g2, b2, a2)"
    and "0 \<le> threshold" and "0 \<le> gain"
    and "max (uint r1) (max (uint g1) (uint b1)) \<le> max (uint r2) (max (uint g2) (uint b2))"
  shows "getpixel (compute_mask threshold gain (merge_rgb im1)) x1 y1
           \<le> getpixel (compute_mask threshold gain (merge_rgb im2)) x2 y2"
proof -
  define m1 where "m1 = max (uint r1) (max (uint g1) (uint b1))"
  define m2 where "m2 = max (uint r2) (max (uint g2) (uint b2))"
  have px1: "getpixel (compute_mask threshold gain (merge_rgb im1)) x1 y1 =
      pixel_alpha threshold gain (r1, g1, b1)"
    using assms(1-4) by (simp add: getpixel_compute_mask drop_alpha_def)
  have px2: "getpixel (compute_mask threshold gain (merge_rgb im2)) x2 y2 =
      pixel_alpha threshold gain (r2, g2, b2)"
    using assms(5-8) by (simp add: getpixel_compute_mask drop_alpha_def)
  have m: "max_channel (r1, g1, b1) = m1" "max_channel (r2, g2, b2) = m2"
    by (simp_all add: max_channel_eq m1_def m2_def)
  have "m1 \<le> m2" using assms(11) by (simp add: m1_def m2_def)
  then have "(m1 - threshold) * gain \<le> (m2 - threshold) * gain"
    using \<open>0 \<le> gain\<close> by (intro mult_right_mono) simp_all
  then have "uint (pixel_alpha threshold gain (r1, g1, b1))
      \<le> uint (pixel_alpha threshold gain (r2, g2, b2))"
    unfolding uint_pixel_alpha m by simp
  then show ?thesis
    unfolding px1 px2 by (simp add: word_le_def)
qed

theorem alpha_monotone_in_max_channel_witness:
  "getpixel (compute_mask 6 18
      (merge_rgb \<lparr>width = 2, height = 1, pixels = [(10, 12, 5, 255), (3, 14, 1, 0)]\<rparr>)) 0 0
   \<le> getpixel (compute_mask 6 18
      (merge_rgb \<lparr>width = 2, height = 1, pixels = [(10, 12, 5, 255), (3, 14, 1, 0)]\<rparr>)) 1 0"
proof -
  let ?im = "\<lparr>width = 2, height = 1, pixels = [(10, 12, 5, 255), (3, 14, 1, 0) :: rgba]\<rparr>"
  have wf: "wf_image ?im" by (simp add: wf_image_def)
  have p0: "getpixel ?im 0 0 = (10, 12, 5, 255)" and p1: "getpixel ?im 1 0 = (3, 14, 1, 0)"
    by (simp_all add: getpixel_def)
  from alpha_monotone_in_max_channel [OF wf _ _ p0 wf _ _ p1, of 6 18]
  show ?thesis by simp
qed

subsection \<open>Cropping to the content\<close>

text \<open>
  Claim C2. The 10 by 10 black image with one white pixel at (5, 5), processed with
  \<open>threshold = 6\<close>, \<open>gain = 18\<close> and \<open>pad = 2\<close>: the bounding box of the mask is
  (5, 5, 6, 6), padding makes it (3, 3, 8, 8), and the result is a 5 by 5 image whose pixel
  (2, 2), the place of the original (5, 5), is opaque white while every other pixel has
  alpha 0.
\<close>

theorem white_dot_scenario:
  "getbbox (compute_mask 6 18 (merge_rgb
      \<lparr>width = 10, height = 10,
       pixels = replicate 55 (0, 0, 0, 255) @ [(255, 255, 255, 255)] @ replicate 44 (0, 0, 0, 255)\<rparr>))
     = Some (5, 5, 6, 6)
   \<and> pad_box 10 10 2 (5, 5, 6, 6) = (3, 3, 8, 8)
   \<and> process_image
       \<lparr>width = 10, height = 10,
        pixels = replicate 55 (0, 0, 0, 255) @ [(255, 255, 255, 255)] @ replicate 44 (0, 0, 0, 255)\<rparr>
       6 18 2
     = Inr \<lparr>width = 5, height = 5,
            pixels = replicate 12 (255, 255, 255, 0) @ [(255, 255, 255, 255)]
                       @ replicate 12 (255, 255, 255, 0)\<rparr>"
  by code_simp

text \<open>
  Claim C3. Whenever the mask has a bounding box and \<open>pad\<close> is not negative, the box
  that lines 35 to 38 compute and hand to \<open>crop\<close> lies inside the image:
  its left and upper edges are at least 0, its right edge at most the width and its
  lower edge at most the height, however large \<open>pad\<close> is.
\<close>

theorem crop_box_inside_image:
  assumes "getbbox (compute_mask threshold gain (merge_rgb im)) = Some (x0, y0, x1, y1)"
    and "0 \<le> pad"
    and "pad_box (width im) (height im) pad (x0, y0, x1, y1) = (cx0, cy0, cx1, cy1)"
  shows "0 \<le> cx0 \<and> 0 \<le> cy0 \<and> cx1 \<le> int (width im) \<and> cy1 \<le> int (height im)
         \<and> crop_to_content (width im) (height im) pad (compute_mask threshold gain (merge_rgb im))
             = crop (compute_mask threshold gain (merge_rgb im)) (cx0, cy0, cx1, cy1)"
  using assms(1) pad_box_bounds [OF assms(3)] assms(3)
  by (simp add: crop_to_content_def)

theorem crop_box_inside_image_witness:
  "getbbox (compute_mask 6 18 (merge_rgb
      \<lparr>width = 3, height = 2,
       pixels = [(0, 0, 0, 255), (0, 0, 0, 255), (200, 90, 7, 255),
                 (0, 0, 0, 255), (0, 0, 0, 255), (0, 0, 0, 255)]\<rparr>)) = Some (2, 0, 3, 1)
   \<and> pad_box 3 2 24 (2, 0, 3, 1) = (0, 0, 3, 2)
   \<and> crop_to_content 3 2 24 (compute_mask 6 18 (merge_rgb
      \<lparr>width = 3, height = 2,
       pixels = [(0, 0, 0, 255), (0, 0, 0, 255), (200, 90, 7, 255),
                 (0, 0, 0, 255), (0, 0, 0, 255), (0, 0, 0, 255)]\<rparr>))
     = crop (compute_mask 6 18 (merge_rgb
      \<lparr>width = 3, height = 2,
       pixels = [(0, 0, 0, 255), (0, 0, 0, 255), (200, 90, 7, 255),
                 (0, 0, 0, 255), (0, 0, 0, 255), (0, 0, 0, 255)]\<rparr>)) (0, 0, 3, 2)"
proof -
  let ?im = "\<lparr>width = 3, height = 2,
       pixels = [(0, 0, 0, 255), (0, 0, 0, 255), (200, 90, 7, 255),
                 (0, 0, 0, 255), (0, 0, 0, 255), (0, 0, 0, 255) :: rgba]\<rparr>"
  have b: "getbbox (compute_mask 6 18 (merge_rgb ?im)) = Some (2, 0, 3, 1)"
    by code_simp
  have p: "pad_box (width ?im) (height ?im) 24 (2, 0, 3, 1) = (0, 0, 3, 2)"
    by (simp add: pad_box_def)
  from crop_box_inside_image [OF b _ p] b p show ?thesis by simp
qed

text \<open>
  Claim C4. When every pixel of the source has \<open>max r g b \<le> threshold\<close> (and
  \<open>gain\<close> is not negative, as the parameters of \<open>process\<close> are), the mask holds no
  non-zero value, \<open>getbbox\<close> returns \<open>None\<close> so that nothing is cropped, and the result has
  the source's width and height with alpha 0 at every pixel.
\<close>

theorem dark_image_is_not_cropped:
  assumes "wf_image im" and "0 \<le> gain"
    and "\<forall>(r, g, b, a) \<in> set (pixels im). max (uint r) (max (uint g) (uint b)) \<le> threshold"
  shows "(\<forall>v \<in> set (pixels (compute_mask threshold gain (merge_rgb im))). v = 0)
         \<and> getbbox (compute_mask threshold gain (merge_rgb im)) = None
         \<and> process_image im threshold gain pad =
             Inr \<lparr>width = width im, height = height im,
                  pixels = replicate (width im * height im) (255, 255, 255, 0)\<rparr>"
proof -
  let ?mask = "compute_mask threshold gain (merge_rgb im)"
  have "wf_image (merge_rgb im)"
    using assms(1) by (simp add: wf_image_def merge_rgb_def)
  then have mask: "?mask = \<lparr>width = width im, height = height im,
       pixels = map (pixel_alpha threshold gain) (map drop_alpha (pixels im))\<rparr>"
    by (simp add: compute_mask_eq merge_rgb_def)
  have dark: "pixel_alpha threshold gain (drop_alpha p) = 0" if "p \<in> set (pixels im)" for p
  proof -
    obtain r g b a where p: "p = (r, g, b, a)" by (cases p) auto
    with that assms(3) have "max_channel (r, g, b) \<le> threshold"
      by (auto simp: max_channel_eq)
    with \<open>0 \<le> gain\<close> have "(max_channel (r, g, b) - threshold) * gain \<le> 0"
      by (simp add: mult_le_0_iff)
    then have "uint (pixel_alpha threshold gain (r, g, b)) = 0"
      by (simp add: uint_pixel_alpha)
    then show ?thesis by (simp add: p drop_alpha_def uint_0_iff)
  qed
  then have "map (pixel_alpha threshold gain) (map drop_alpha (pixels im)) =
      map (\<lambda>p. 0) (pixels im)"
    by simp
  also have "\<dots> = replicate (width im * height im) 0"
    using assms(1) by (simp add: map_replicate_const wf_image_def)
  finally have zeros: "pixels ?mask = replicate (width im * height im) 0"
    unfolding mask by simp
  then have 1: "\<forall>v \<in> set (pixels ?mask). v = 0" by simp
  have wh: "width ?mask = width im" "height ?mask = height im" "wf_image ?mask"
    by (rule width_compute_mask [OF assms(1)])+
  have "getpixel ?mask x y = 0" if "x < width ?mask" "y < height ?mask" for x y
    using that index_in_range [of x "width im" y "height im"]
    by (simp add: getpixel_def zeros wh)
  then have 2: "getbbox ?mask = None"
    by (simp add: getbbox_None_iff)
  have "process_image im threshold gain pad =
      putalpha (Image_new (width ?mask) (height ?mask) (255, 255, 255, 0)) ?mask"
    by (simp add: process_image_def Let_def crop_to_content_def 2)
  also have "\<dots> = Inr \<lparr>width = width im, height = height im,
       pixels = replicate (width im * height im) (255, 255, 255, 0)\<rparr>"
    unfolding putalpha_new [OF wh(3)] by (simp add: wh zeros set_alpha_def)
  finally show ?thesis using 1 2 by blast
qed

theorem dark_image_is_not_cropped_witness:
  "wf_image \<lparr>width = 2, height = 2,
       pixels = [(0, 0, 0, 255), (6, 2, 1, 255), (3, 3, 3, 0), (1, 5, 6, 9) :: rgba]\<rparr>
   \<and> process_image
       \<lparr>width = 2, height = 2,
        pixels = [(0, 0, 0, 255), (6, 2, 1, 255), (3, 3, 3, 0), (1, 5, 6, 9)]\<rparr> 6 18 24
     = Inr \<lparr>width = 2, height = 2, pixels = replicate 4 (255, 255, 255, 0)\<rparr>"
proof -
  let ?im = "\<lparr>width = 2, height = 2,
       pixels = [(0, 0, 0, 255), (6, 2, 1, 255), (3, 3, 3, 0), (1, 5, 6, 9) :: rgba]\<rparr>"
  have wf: "wf_image ?im" by (simp add: wf_image_def)
  have dark: "\<forall>(r, g, b, a) \<in> set (pixels ?im). max (uint r) (max (uint g) (uint b)) \<le> 6"
    by simp
  from dark_image_is_not_cropped [OF wf _ dark, of 18 24] wf
  show ?thesis by simp
qed

text \<open>
  Claim C8. Two source images of the same size that agree on the red, green and blue
  channel of every pixel give the same result, whatever their alpha channels hold.
\<close>

theorem source_alpha_is_ignored:
  assumes "width im1 = width im2" and "height im1 = height im2"
    and "map drop_alpha (pixels im1) = map drop_alpha (pixels im2)"
  shows "process_image im1 threshold gain pad = process_image im2 threshold gain pad"
proof -
  from assms have "merge_rgb im1 = merge_rgb im2"
    by (simp add: merge_rgb_def)
  then show ?thesis
    by (simp add: process_image_def)
qed

theorem source_alpha_is_ignored_witness:
  "process_image \<lparr>width = 2, height = 1, pixels = [(10, 20, 5, 255), (3, 6, 1, 0)]\<rparr> 6 18 24
     = process_image \<lparr>width = 2, height = 1, pixels = [(10, 20, 5, 17), (3, 6, 1, 200)]\<rparr> 6 18 24
   \<and> process_image \<lparr>width = 2, height = 1, pixels = [(10, 20, 5, 17), (3, 6, 1, 200)]\<rparr> 6 18 24
     = Inr \<lparr>width = 2, height = 1, pixels = [(255, 255, 255, 252), (255, 255, 255, 0)]\<rparr>"
proof -
  have "process_image \<lparr>width = 2, height = 1, pixels = [(10, 20, 5, 17), (3, 6, 1, 200)]\<rparr> 6 18 24
     = Inr \<lparr>width = 2, height = 1, pixels = [(255, 255, 255, 252), (255, 255, 255, 0)]\<rparr>"
    by code_simp
  with source_alpha_is_ignored [of
      "\<lparr>width = 2, height = 1, pixels = [(10, 20, 5, 255), (3, 6, 1, 0)]\<rparr>"
      "\<lparr>width = 2, height = 1, pixels = [(10, 20, 5, 17), (3, 6, 1, 200)]\<rparr>" 6 18 24]
  show ?thesis by (simp add: drop_alpha_def)
qed

text \<open>
  Claim C10. Cropping discards no content. For a non-negative \<open>pad\<close> and a mask with a
  non-zero pixel at \<open>(x, y)\<close>, the mask has a bounding box, the padded and clamped box
  contains that bounding box and the pixel, and the result of \<open>process\<close> carries the
  pixel's mask value, unchanged, as the alpha at \<open>(x, y)\<close> shifted by the box's corner.
\<close>

theorem crop_keeps_every_marked_pixel:
  assumes "wf_image im" and "0 \<le> pad"
    and "x < width im" and "y < height im"
    and "getpixel (compute_mask threshold gain (merge_rgb im)) x y \<noteq> 0"
  shows "\<exists>x0 y0 x1 y1 cx0 cy0 cx1 cy1 out.
           getbbox (compute_mask threshold gain (merge_rgb im)) = Some (x0, y0, x1, y1)
         \<and> pad_box (width im) (height im) pad (x0, y0, x1, y1) = (cx0, cy0, cx1, cy1)
         \<and> cx0 \<le> x0 \<and> cy0 \<le> y0 \<and> x1 \<le> cx1 \<and> y1 \<le> cy1
         \<and> cx0 \<le> int x \<and> int x < cx1 \<and> cy0 \<le> int y \<and> int y < cy1
         \<and> process_image im threshold gain pad = Inr out
         \<and> width out = nat (cx1 - cx0) \<and> height out = nat (cy1 - cy0)
         \<and> getpixel out (x - nat cx0) (y - nat cy0) =
              (255, 255, 255, getpixel (compute_mask threshold gain (merge_rgb im)) x y)"
proof -
  let ?mask = "compute_mask threshold gain (merge_rgb im)"
  note m = width_compute_mask [OF assms(1), of threshold gain]
  have "getbbox ?mask \<noteq> None"
    using assms(3-5) by (auto simp: getbbox_None_iff m)
  then obtain x0 y0 x1 y1 where bbox: "getbbox ?mask = Some (x0, y0, x1, y1)"
    by (cases "getbbox ?mask") auto
  obtain cx0 cy0 cx1 cy1
    where padded: "pad_box (width im) (height im) pad (x0, y0, x1, y1) = (cx0, cy0, cx1, cy1)"
    by (cases "pad_box (width im) (height im) pad (x0, y0, x1, y1)") auto
  note b = getbbox_Some [OF bbox, unfolded m]
  note g = pad_box_grows [OF padded assms(2) b(1,3,4,6)]
  note p = pad_box_bounds [OF padded]
  have "x < width ?mask" "y < height ?mask" using assms(3,4) by (simp_all add: m)
  note c = getbbox_contains [OF bbox this assms(5)]
  from c g have inside: "cx0 \<le> int x" "int x < cx1" "cy0 \<le> int y" "int y < cy1"
    by simp_all
  obtain out where out: "process_image im threshold gain pad = Inr out"
    "width out = nat (cx1 - cx0)" "height out = nat (cy1 - cy0)"
    "\<And>i j. i < width out \<Longrightarrow> j < height out \<Longrightarrow>
       getpixel out i j = (255, 255, 255, getpixel ?mask (nat cx0 + i) (nat cy0 + j))"
    by (rule process_image_cropped [OF assms(1,2) bbox padded]) blast
  have "x - nat cx0 < width out" "y - nat cy0 < height out"
    using inside p out(2,3) by linarith+
  from out(4) [OF this] have "getpixel out (x - nat cx0) (y - nat cy0) =
      (255, 255, 255, getpixel ?mask (nat cx0 + (x - nat cx0)) (nat cy0 + (y - nat cy0)))" .
  moreover have "nat cx0 + (x - nat cx0) = x" "nat cy0 + (y - nat cy0) = y"
    using inside p by linarith+
  ultimately have "getpixel out (x - nat cx0) (y - nat cy0) = (255, 255, 255, getpixel ?mask x y)"
    by simp
  with bbox padded g inside out(1-3) show ?thesis by blast
qed

theorem crop_keeps_every_marked_pixel_witness:
  "getpixel (compute_mask 6 18 (merge_rgb
      \<lparr>width = 3, height = 2,
       pixels = [(0, 0, 0, 255), (0, 0, 0, 255), (0, 0, 0, 255),
                 (0, 0, 0, 255), (0, 0, 0, 255), (3, 12, 7, 255)]\<rparr>)) 2 1 = 108
   \<and> (\<exists>out. process_image
           \<lparr>width = 3, height = 2,
            pixels = [(0, 0, 0, 255), (0, 0, 0, 255), (0, 0, 0, 255),
                      (0, 0, 0, 255), (0, 0, 0, 255), (3, 12, 7, 255)]\<rparr> 6 18 1 = Inr out
       \<and> width out = 2 \<and> height out = 2
       \<and> getpixel out 1 1 = (255, 255, 255, 108))"
proof -
  let ?im = "\<lparr>width = 3, height = 2,
       pixels = [(0, 0, 0, 255), (0, 0, 0, 255), (0, 0, 0, 255),
                 (0, 0, 0, 255), (0, 0, 0, 255), (3, 12, 7, 255) :: rgba]\<rparr>"
  let ?mask = "compute_mask 6 18 (merge_rgb ?im)"
  have wf: "wf_image ?im" by (simp add: wf_image_def)
  have v: "getpixel ?mask 2 1 = 108"
    by code_simp
  then have nz: "getpixel ?mask 2 1 \<noteq> 0"
    by simp
  have b: "getbbox ?mask = Some (2, 1, 3, 2)"
    by code_simp
  have p: "pad_box 3 2 1 (2, 1, 3, 2) = (1, 0, 3, 2)"
    by (simp add: pad_box_def)
  have "0 \<le> (1::int)" "2 < width ?im" "1 < height ?im" by simp_all
  from crop_keeps_every_marked_pixel [OF wf this nz]
  obtain x0 y0 x1 y1 cx0 cy0 cx1 cy1 out
    where "getbbox ?mask = Some (x0, y0, x1, y1)"
      and "pad_box (width ?im) (height ?im) 1 (x0, y0, x1, y1) = (cx0, cy0, cx1, cy1)"
      and out: "process_image ?im 6 18 1 = Inr out"
        "width out = nat (cx1 - cx0)" "height out = nat (cy1 - cy0)"
        "getpixel out (2 - nat cx0) (1 - nat cy0) = (255, 255, 255, getpixel ?mask 2 1)"
    by blast
  with b p have "cx0 = 1" "cy0 = 0" "cx1 = 3" "cy1 = 2" by simp_all
  with out v have "process_image ?im 6 18 1 = Inr out \<and> width out = 2 \<and> height out = 2
      \<and> getpixel out 1 1 = (255, 255, 255, 108)"
    by simp
  with v show ?thesis by blast
qed

subsection \<open>Runs of \<open>process\<close> on the file system\<close>

lemma process_cases:
  "process src dst threshold gain pad w =
     (case Image_open src w of
        Inl e \<Rightarrow> (Inl e, w)
      | Inr im \<Rightarrow>
          (case process_image im threshold gain pad of
             Inl e \<Rightarrow> (Inl e, w)
           | Inr out \<Rightarrow>
               (if writable w dst
                then (Inr (),
                      \<lparr>files = (files w)(dst \<mapsto> Encoded out), writable = writable w,
                       stdout = stdout w @ [''Wrote '' @ dst @ '' ('' @ decimal (width out) @ ''x''
                                  @ decimal (height out) @ '')'']\<rparr>)
                else (Inl OSError, w))))"
  by (simp add: process_def Image_save_def print_def split: sum.splits)

text \<open>
  Claim C7. \<open>process\<close> is deterministic. Two runs with the same parameters, started in
  any two states of the file system that hold the same source file (and agree on whether
  the destination can be written), end with the same outcome, and when they succeed the
  destination holds the same image after both: the result of \<open>process_image\<close> on the
  decoded source. In particular, when source and destination are different paths, running
  \<open>process\<close> a second time right after the first gives the same outcome and leaves the
  destination file as the first run wrote it.
\<close>

theorem process_is_deterministic:
  assumes "files w1 src = files w2 src" and "writable w1 dst = writable w2 dst"
  shows "fst (process src dst threshold gain pad w1) = fst (process src dst threshold gain pad w2)
         \<and> (fst (process src dst threshold gain pad w1) = Inr () \<longrightarrow>
              files (snd (process src dst threshold gain pad w1)) dst
                = files (snd (process src dst threshold gain pad w2)) dst
              \<and> (\<exists>im out. Image_open src w1 = Inr im
                    \<and> process_image im threshold gain pad = Inr out
                    \<and> files (snd (process src dst threshold gain pad w1)) dst = Some (Encoded out)))
         \<and> (src \<noteq> dst \<longrightarrow>
              fst (process src dst threshold gain pad (snd (process src dst threshold gain pad w1)))
                = fst (process src dst threshold gain pad w1)
              \<and> files (snd (process src dst threshold gain pad
                               (snd (process src dst threshold gain pad w1)))) dst
                = files (snd (process src dst threshold gain pad w1)) dst)"
proof -
  from assms(1) have "Image_open src w1 = Image_open src w2"
    by (simp add: Image_open_def)
  with assms(2) have two_worlds:
    "fst (process src dst threshold gain pad w1) = fst (process src dst threshold gain pad w2)"
    "fst (process src dst threshold gain pad w1) = Inr () \<longrightarrow>
       files (snd (process src dst threshold gain pad w1)) dst
         = files (snd (process src dst threshold gain pad w2)) dst
       \<and> (\<exists>im out. Image_open src w1 = Inr im
             \<and> process_image im threshold gain pad = Inr out
             \<and> files (snd (process src dst threshold gain pad w1)) dst = Some (Encoded out))"
    by (auto simp: process_cases split: sum.splits)
  let ?w = "snd (process src dst threshold gain pad w1)"
  have rerun: "fst (process src dst threshold gain pad ?w) = fst (process src dst threshold gain pad w1)
      \<and> files (snd (process src dst threshold gain pad ?w)) dst = files ?w dst"
    if "src \<noteq> dst"
  proof -
    from that have same: "Image_open src ?w = Image_open src w1" "writable ?w dst = writable w1 dst"
      by (auto simp: process_cases Image_open_def split: sum.splits)
    have "process src dst threshold gain pad ?w =
        (case Image_open src w1 of
           Inl e \<Rightarrow> (Inl e, ?w)
         | Inr im \<Rightarrow>
             (case process_image im threshold gain pad of
                Inl e \<Rightarrow> (Inl e, ?w)
              | Inr out \<Rightarrow>
                  (if writable w1 dst
                   then (Inr (),
                         \<lparr>files = (files ?w)(dst \<mapsto> Encoded out), writable = writable ?w,
                          stdout = stdout ?w @ [''Wrote '' @ dst @ '' ('' @ decimal (width out)
                                     @ ''x'' @ decimal (height out) @ '')'']\<rparr>)
                   else (Inl OSError, ?w))))"
      unfolding process_cases [of src dst threshold gain pad ?w] same ..
    then show ?thesis
      by (auto simp: process_cases [of src dst threshold gain pad w1] split: sum.splits)
  qed
  from two_worlds rerun show ?thesis by blast
qed

text \<open>
  Claim C9. The destination is written only once all processing is done. A run that
  fails while opening the source, or between opening and saving (masking, cropping,
  compositing), returns that error and leaves the whole file system as it was; and
  the file at the destination changes only in a run that opened the source and
  finished processing it.
\<close>

theorem nothing_written_before_processing_ends:
  "(Image_open src w = Inl e \<longrightarrow> process src dst threshold gain pad w = (Inl e, w))
   \<and> (Image_open src w = Inr im \<and> process_image im threshold gain pad = Inl e \<longrightarrow>
        process src dst threshold gain pad w = (Inl e, w))
   \<and> (files (snd (process src dst threshold gain pad w)) dst \<noteq> files w dst \<longrightarrow>
        (\<exists>im out. Image_open src w = Inr im
           \<and> process_image im threshold gain pad = Inr out))"
  by (auto simp: process_cases split: sum.splits)

theorem process_is_deterministic_witness:
  "fst (process ''a.png'' ''b.png'' 6 18 24
      \<lparr>files = [''a.png'' \<mapsto> Encoded \<lparr>width = 2, height = 2,
                                          pixels = [(10, 20, 5, 255), (3, 6, 1, 0), (0, 0, 0, 255), (1, 2, 3, 4)]\<rparr>],
       writable = (\<lambda>p. True), stdout = []\<rparr>) = Inr ()
   \<and> files (snd (process ''a.png'' ''b.png'' 6 18 24
      \<lparr>files = [''a.png'' \<mapsto> Encoded \<lparr>width = 2, height = 2,
                                          pixels = [(10, 20, 5, 255), (3, 6, 1, 0), (0, 0, 0, 255), (1, 2, 3, 4)]\<rparr>],
       writable = (\<lambda>p. True), stdout = []\<rparr>)) ''b.png''
     = files (snd (process ''a.png'' ''b.png'' 6 18 24
      \<lparr>files = [''a.png'' \<mapsto> Encoded \<lparr>width = 2, height = 2,
                                          pixels = [(10, 20, 5, 255), (3, 6, 1, 0), (0, 0, 0, 255), (1, 2, 3, 4)]\<rparr>,
                ''b.png'' \<mapsto> Not_an_image],
       writable = (\<lambda>p. True), stdout = [''earlier output'']\<rparr>)) ''b.png''"
proof -
  let ?im = "\<lparr>width = 2, height = 2, pixels = [(10, 20, 5, 255), (3, 6, 1, 0), (0, 0, 0, 255), (1, 2, 3, 4) :: rgba]\<rparr>"
  let ?w1 = "\<lparr>files = [''a.png'' \<mapsto> Encoded ?im], writable = (\<lambda>p. True), stdout = []\<rparr>"
  let ?w2 = "\<lparr>files = [''a.png'' \<mapsto> Encoded ?im, ''b.png'' \<mapsto> Not_an_image],
              writable = (\<lambda>p. True), stdout = [''earlier output'']\<rparr>"
  have im: "process_image ?im 6 18 24 =
      Inr \<lparr>width = 2, height = 2, pixels = [(255, 255, 255, 252), (255, 255, 255, 0), (255, 255, 255, 0), (255, 255, 255, 0)]\<rparr>"
    by code_simp
  have ok: "fst (process ''a.png'' ''b.png'' 6 18 24 ?w1) = Inr ()"
    by (simp add: process_cases Image_open_def im)
  have "files ?w1 ''a.png'' = files ?w2 ''a.png''"
    and "writable ?w1 ''b.png'' = writable ?w2 ''b.png''"
    by simp_all
  from process_is_deterministic [OF this, of 6 18 24] ok
  show ?thesis by blast
qed

theorem nothing_written_before_processing_ends_witness:
  "process ''missing.png'' ''b.png'' 6 18 24
      \<lparr>files = [''a.png'' \<mapsto> Encoded \<lparr>width = 2, height = 2,
                                          pixels = [(10, 20, 5, 255), (3, 6, 1, 0), (0, 0, 0, 255), (1, 2, 3, 4)]\<rparr>],
       writable = (\<lambda>p. True), stdout = []\<rparr>
     = (Inl FileNotFoundError,
        \<lparr>files = [''a.png'' \<mapsto> Encoded \<lparr>width = 2, height = 2,
                                            pixels = [(10, 20, 5, 255), (3, 6, 1, 0), (0, 0, 0, 255), (1, 2, 3, 4)]\<rparr>],
         writable = (\<lambda>p. True), stdout = []\<rparr>)
   \<and> process ''a.png'' ''b.png'' 6 18 (- 1)
      \<lparr>files = [''a.png'' \<mapsto> Encoded \<lparr>width = 2, height = 2,
                                          pixels = [(10, 20, 5, 255), (3, 6, 1, 0), (0, 0, 0, 255), (1, 2, 3, 4)]\<rparr>],
       writable = (\<lambda>p. True), stdout = []\<rparr>
     = (Inl ValueError,
        \<lparr>files = [''a.png'' \<mapsto> Encoded \<lparr>width = 2, height = 2,
                                            pixels = [(10, 20, 5, 255), (3, 6, 1, 0), (0, 0, 0, 255), (1, 2, 3, 4)]\<rparr>],
         writable = (\<lambda>p. True), stdout = []\<rparr>)"
proof -
  let ?im = "\<lparr>width = 2, height = 2, pixels = [(10, 20, 5, 255), (3, 6, 1, 0), (0, 0, 0, 255), (1, 2, 3, 4) :: rgba]\<rparr>"
  let ?w = "\<lparr>files = [''a.png'' \<mapsto> Encoded ?im], writable = (\<lambda>p. True), stdout = []\<rparr>"
  have missing: "Image_open ''missing.png'' ?w = Inl FileNotFoundError"
    by (simp add: Image_open_def)
  have opened: "Image_open ''a.png'' ?w = Inr ?im"
    by (simp add: Image_open_def)
  have failed: "process_image ?im 6 18 (- 1) = Inl ValueError"
    by code_simp
  from nothing_written_before_processing_ends
      [of "''missing.png''" ?w FileNotFoundError "''b.png''" 6 18 24 ?im]
    nothing_written_before_processing_ends
      [of "''a.png''" ?w ValueError "''b.png''" 6 18 "- 1" ?im]
    missing opened failed
  show ?thesis by blast
qed

end
